theory Spec2Isabelle
  imports Main "HOL-Library.Sublist"
begin

section \<open>Text: the string operations of the source\<close>

text \<open>
  Python strings are modelled as \<^typ>\<open>string\<close>. The character classes and the case
  mappings are those of Python on ASCII code points (\<open>str.lower\<close>, \<open>str.upper\<close>,
  \<open>str.strip\<close>, and \<open>\s\<close>, \<open>\d\<close> of the \<open>re\<close> module); text beyond ASCII is outside
  this development.
\<close>

definition is_upper_char :: "char \<Rightarrow> bool" where
  "is_upper_char c = (let n = (of_char c :: nat) in 65 \<le> n \<and> n \<le> 90)"

definition is_lower_char :: "char \<Rightarrow> bool" where
  "is_lower_char c = (let n = (of_char c :: nat) in 97 \<le> n \<and> n \<le> 122)"

definition lower_char :: "char \<Rightarrow> char" where
  "lower_char c = (if is_upper_char c then char_of ((of_char c :: nat) + 32) else c)"

definition upper_char :: "char \<Rightarrow> char" where
  "upper_char c = (if is_lower_char c then char_of ((of_char c :: nat) - 32) else c)"

text \<open>\<open>s.lower()\<close> and \<open>s.upper()\<close>.\<close>

definition str_lower :: "string \<Rightarrow> string" where
  "str_lower s = map lower_char s"

definition str_upper :: "string \<Rightarrow> string" where
  "str_upper s = map upper_char s"

text \<open>
  Whitespace as \<open>str.isspace\<close>, \<open>str.strip\<close> and the pattern \<open>\s\<close> see it on ASCII:
  the code points 9 to 13, 28 to 31 and 32.
\<close>

definition is_space :: "char \<Rightarrow> bool" where
  "is_space c = (let n = (of_char c :: nat) in (9 \<le> n \<and> n \<le> 13) \<or> (28 \<le> n \<and> n \<le> 32))"

definition is_digit :: "char \<Rightarrow> bool" where
  "is_digit c = (let n = (of_char c :: nat) in 48 \<le> n \<and> n \<le> 57)"

text \<open>\<open>s.strip()\<close>: leading and trailing whitespace removed.\<close>

definition str_strip :: "string \<Rightarrow> string" where
  "str_strip s = rev (dropWhile is_space (rev (dropWhile is_space s)))"

text \<open>\<open>sub in s\<close> on strings: \<open>sub\<close> occurs in \<open>s\<close> as a contiguous run.\<close>

fun py_in :: "string \<Rightarrow> string \<Rightarrow> bool" where
  "py_in sub [] = (sub = [])"
| "py_in sub (c # cs) = (prefix sub (c # cs) \<or> py_in sub cs)"

text \<open>\<open>sep.join(xs)\<close>.\<close>

fun str_join :: "string \<Rightarrow> string list \<Rightarrow> string" where
  "str_join sep [] = []"
| "str_join sep [x] = x"
| "str_join sep (x # y # ys) = x @ sep @ str_join sep (y # ys)"

section \<open>Keyword Matcher\<close>

text \<open>
  The list \<open>RISK_KEYWORDS\<close> of the source.
\<close>

definition RISK_KEYWORDS :: "string list" where
  "RISK_KEYWORDS =
    [''High TRQ'', ''Torque'', ''Stuck'', ''String vibration'', ''Mud loss'', ''Mud gain'',
     ''Drag'', ''String installation'', ''String running'', ''Washout'', ''Hole problems'',
     ''Differential sticking'', ''Pack-off'', ''Kick'', ''Well control'']"

text \<open>
  \<open>search_keywords\<close>: the loop over the keywords, with the list \<open>matched\<close> as
  accumulator; \<open>text_lower\<close> is computed once, before the loop.
\<close>

fun search_keywords_loop :: "string \<Rightarrow> string list \<Rightarrow> string list \<Rightarrow> string list" where
  "search_keywords_loop text_lower [] matched = matched"
| "search_keywords_loop text_lower (kw # kws) matched =
     (if py_in (str_lower kw) text_lower
      then search_keywords_loop text_lower kws (matched @ [kw])
      else search_keywords_loop text_lower kws matched)"

definition search_keywords :: "string \<Rightarrow> string list \<Rightarrow> string list" where
  "search_keywords text keywords = search_keywords_loop (str_lower text) keywords []"

section \<open>Cells, timestamps and grids\<close>

text \<open>
  The exceptions the functions can meet: the \<open>IndexError\<close> of a positional read outside
  the grid, and the failure to read a workbook or a sheet, with the library's message.
\<close>

datatype py_error = IndexError | ReadError string

definition error_text :: "py_error \<Rightarrow> string" where
  "error_text e =
     (case e of IndexError \<Rightarrow> ''single positional indexer is out-of-bounds''
      | ReadError msg \<Rightarrow> msg)"

text \<open>
  A \<open>pd.Timestamp\<close>, with the fields the source formats. Its year has four digits
  (a \<open>pd.Timestamp\<close> lies between the years 1677 and 2262).
\<close>

record timestamp =
  ts_year :: nat
  ts_month :: nat
  ts_day :: nat
  ts_hour :: nat
  ts_minute :: nat

text \<open>The decimal digits of a natural number, and the two-digit zero-padded form.\<close>

fun dec :: "nat \<Rightarrow> string" where
  "dec n = (if n < 10 then [char_of (48 + n)] else dec (n div 10) @ [char_of (48 + n mod 10)])"

declare dec.simps [simp del]

definition pad2 :: "nat \<Rightarrow> string" where
  "pad2 n = (if n < 10 then CHR ''0'' # dec n else dec n)"

text \<open>\<open>t.strftime('%Y-%m-%d %H:%M')\<close> and \<open>t.strftime('%H:%M')\<close>.\<close>

definition strftime_date_hm :: "timestamp \<Rightarrow> string" where
  "strftime_date_hm t =
     dec (ts_year t) @ ''-'' @ pad2 (ts_month t) @ ''-'' @ pad2 (ts_day t) @ '' '' @
     pad2 (ts_hour t) @ '':'' @ pad2 (ts_minute t)"

definition strftime_hm :: "timestamp \<Rightarrow> string" where
  "strftime_hm t = pad2 (ts_hour t) @ '':'' @ pad2 (ts_minute t)"

text \<open>
  A cell of a sheet read with \<open>header=None\<close>: a missing value (\<open>NaN\<close>, \<open>None\<close>, \<open>NaT\<close>:
  what \<open>pd.isna\<close> accepts), a \<open>str\<close>, a \<open>pd.Timestamp\<close>, or any other value (a number, a
  \<open>datetime.time\<close>, ...), carried as the text \<open>str\<close> gives for it.
\<close>

datatype cell = CNaN | CStr string | CTimestamp timestamp | COther string

text \<open>
  A \<open>DataFrame\<close>: \<open>len(df.columns)\<close> and the rows, \<open>len(df)\<close> of them, each with one cell
  per column.
\<close>

record dataframe =
  df_columns :: nat
  df_rows :: "cell list list"

definition rectangular :: "dataframe \<Rightarrow> bool" where
  "rectangular df = list_all (\<lambda>row. length row = df_columns df) (df_rows df)"

text \<open>
  The column a positional index stands for: Python counts a negative index from the end.
\<close>

definition col_pos :: "dataframe \<Rightarrow> int \<Rightarrow> nat option" where
  "col_pos df c =
     (let n = int (df_columns df); j = (if c < 0 then n + c else c)
      in if 0 \<le> j \<and> j < n then Some (nat j) else None)"

definition cell_at :: "dataframe \<Rightarrow> nat \<Rightarrow> nat \<Rightarrow> cell" where
  "cell_at df r j = df_rows df ! r ! j"

text \<open>\<open>df.iloc[row_idx, col_idx]\<close>, which raises \<open>IndexError\<close> outside the grid.\<close>

definition iloc :: "dataframe \<Rightarrow> nat \<Rightarrow> int \<Rightarrow> py_error + cell" where
  "iloc df row_idx col_idx =
     (case col_pos df col_idx of
        None \<Rightarrow> Inl IndexError
      | Some j \<Rightarrow> if row_idx < length (df_rows df) then Inr (cell_at df row_idx j)
                  else Inl IndexError)"

section \<open>Header Locator\<close>

text \<open>
  The test of lines 50 and 66:
  \<open>isinstance(cell_value, str) and 'DETAILS OF OPERATIONS' in cell_value.upper()\<close>.
\<close>

definition is_header_text :: "cell \<Rightarrow> bool" where
  "is_header_text cell_value =
     (case cell_value of CStr s \<Rightarrow> py_in ''DETAILS OF OPERATIONS'' (str_upper s) | _ \<Rightarrow> False)"

text \<open>
  \<open>find_operations_column\<close>: the inner loop over the columns of one row gives \<open>Some\<close> of
  the index it returns, or \<open>None\<close> when it runs to its end; the outer loop runs over
  \<open>range(min(100, len(df)))\<close>.
\<close>

fun find_in_row :: "dataframe \<Rightarrow> nat \<Rightarrow> nat list \<Rightarrow> py_error + int option" where
  "find_in_row df row_idx [] = Inr None"
| "find_in_row df row_idx (col_idx # cols) =
     (case iloc df row_idx (int col_idx) of
        Inl e \<Rightarrow> Inl e
      | Inr cell_value \<Rightarrow>
          if is_header_text cell_value then Inr (Some (int col_idx))
          else find_in_row df row_idx cols)"

fun find_in_rows :: "dataframe \<Rightarrow> nat list \<Rightarrow> py_error + int" where
  "find_in_rows df [] = Inr (- 1)"
| "find_in_rows df (row_idx # rows) =
     (case find_in_row df row_idx [0..<df_columns df] of
        Inl e \<Rightarrow> Inl e
      | Inr (Some col_idx) \<Rightarrow> Inr col_idx
      | Inr None \<Rightarrow> find_in_rows df rows)"

definition find_operations_column :: "dataframe \<Rightarrow> py_error + int" where
  "find_operations_column df = find_in_rows df [0..<min 100 (length (df_rows df))]"

section \<open>Row Segmenter\<close>

record operation =
  time_date :: string
  details :: string

text \<open>The search for the header row (lines 63 to 68); \<open>- 1\<close> when the loop ends.\<close>

fun find_header_row :: "dataframe \<Rightarrow> int \<Rightarrow> nat list \<Rightarrow> py_error + int" where
  "find_header_row df ops_col [] = Inr (- 1)"
| "find_header_row df ops_col (row_idx # rows) =
     (case iloc df row_idx ops_col of
        Inl e \<Rightarrow> Inl e
      | Inr cell_value \<Rightarrow>
          if is_header_text cell_value then Inr (int row_idx)
          else find_header_row df ops_col rows)"

text \<open>
  The narrative of a row (line 81): \<open>None\<close> exactly when
  \<open>pd.isna(details) or not isinstance(details, str) or details.strip() == ''\<close>.
\<close>

fun narrative_of :: "cell \<Rightarrow> string option" where
  "narrative_of (CStr s) = (if str_strip s = [] then None else Some s)"
| "narrative_of _ = None"

text \<open>
  The time text (lines 93 to 103). First \<open>time_str\<close> from \<open>time_from\<close>: empty for a
  missing value, \<open>strftime\<close> for a timestamp, \<open>str\<close> otherwise. Then \<open>time_to\<close>: nothing for
  a missing value, \<open>" to HH:MM"\<close> for a timestamp, and otherwise \<open>" to "\<close> and the value,
  only when \<open>time_str\<close> is not empty.
\<close>

fun time_from_str :: "cell \<Rightarrow> string" where
  "time_from_str CNaN = []"
| "time_from_str (CTimestamp t) = strftime_date_hm t"
| "time_from_str (CStr s) = s"
| "time_from_str (COther s) = s"

fun append_time_to :: "string \<Rightarrow> cell \<Rightarrow> string" where
  "append_time_to time_str CNaN = time_str"
| "append_time_to time_str (CTimestamp t) = time_str @ '' to '' @ strftime_hm t"
| "append_time_to time_str (CStr s) = (if time_str \<noteq> [] then time_str @ '' to '' @ s else time_str)"
| "append_time_to time_str (COther s) = (if time_str \<noteq> [] then time_str @ '' to '' @ s else time_str)"

definition format_time_date :: "cell \<Rightarrow> cell \<Rightarrow> string" where
  "format_time_date time_from time_to = append_time_to (time_from_str time_from) time_to"

text \<open>
  The body of the data loop at one row (lines 77 to 108): \<open>None\<close> for a skipped row,
  \<open>Some\<close> of the appended entry otherwise. The skipped branch reads column 0 as well.
\<close>

definition segment_row :: "dataframe \<Rightarrow> int \<Rightarrow> nat \<Rightarrow> py_error + operation option" where
  "segment_row df ops_col row_idx =
     (case iloc df row_idx ops_col of
        Inl e \<Rightarrow> Inl e
      | Inr cell_value \<Rightarrow>
          (case narrative_of cell_value of
             None \<Rightarrow>
               (case iloc df row_idx 0 of
                  Inl e \<Rightarrow> Inl e
                | Inr col0_val \<Rightarrow> Inr None)
           | Some text \<Rightarrow>
               (case iloc df row_idx 0 of
                  Inl e \<Rightarrow> Inl e
                | Inr time_from \<Rightarrow>
                    (case iloc df row_idx 1 of
                       Inl e \<Rightarrow> Inl e
                     | Inr time_to \<Rightarrow>
                         Inr (Some \<lparr>time_date = format_time_date time_from time_to,
                                    details = text\<rparr>)))))"

fun data_loop :: "dataframe \<Rightarrow> int \<Rightarrow> nat list \<Rightarrow> operation list \<Rightarrow> py_error + operation list" where
  "data_loop df ops_col [] results = Inr results"
| "data_loop df ops_col (row_idx # rows) results =
     (case segment_row df ops_col row_idx of
        Inl e \<Rightarrow> Inl e
      | Inr None \<Rightarrow> data_loop df ops_col rows results
      | Inr (Some entry) \<Rightarrow> data_loop df ops_col rows (results @ [entry]))"

definition find_operations_data :: "dataframe \<Rightarrow> int \<Rightarrow> py_error + operation list" where
  "find_operations_data df ops_col =
     (case find_header_row df ops_col [0..<min 100 (length (df_rows df))] of
        Inl e \<Rightarrow> Inl e
      | Inr header_row \<Rightarrow>
          if header_row = - 1 then Inr []
          else (let data_start = header_row + 2
                in data_loop df ops_col [nat data_start..<length (df_rows df)] []))"

section \<open>Report identifier\<close>

text \<open>
  \<open>filepath.stem\<close>, on the final component of the path: the name up to its last dot,
  when that dot is neither the first nor the last character (\<open>i = name.rfind('.')\<close>,
  \<open>0 < i < len(name) - 1\<close>).
\<close>

definition rfind_dot :: "string \<Rightarrow> int" where
  "rfind_dot name =
     (if CHR ''.'' \<in> set name
      then int (length name) - 1 - int (length (takeWhile (\<lambda>c. c \<noteq> CHR ''.'') (rev name)))
      else - 1)"

definition path_stem :: "string \<Rightarrow> string" where
  "path_stem name =
     (let i = rfind_dot name
      in if 0 < i \<and> i < int (length name) - 1 then take (nat i) name else name)"

text \<open>
  The pattern \<open>(?:DDR\s*#?\s*|#\s*)(\d+)\<close> with \<open>re.IGNORECASE\<close>. \<open>match_here\<close> matches
  it at the start of a string and gives group 1. Every quantifier is greedy, and what
  each one matches cannot start what follows it (white space, \<open>#\<close> and digits are
  disjoint), so backtracking finds no match that the greedy run misses. \<open>re_search\<close>
  tries the start positions from left to right, as \<open>re.search\<close> does.
\<close>

definition match_digits :: "string \<Rightarrow> string option" where
  "match_digits s = (if takeWhile is_digit s = [] then None else Some (takeWhile is_digit s))"

definition skip_hash :: "string \<Rightarrow> string" where
  "skip_hash s = (case s of [] \<Rightarrow> [] | c # cs \<Rightarrow> if c = CHR ''#'' then cs else c # cs)"

definition match_here :: "string \<Rightarrow> string option" where
  "match_here s =
     (if str_lower (take 3 s) = ''ddr''
      then match_digits (dropWhile is_space (skip_hash (dropWhile is_space (drop 3 s))))
      else if take 1 s = ''#''
      then match_digits (dropWhile is_space (drop 1 s))
      else None)"

fun re_search :: "string \<Rightarrow> string option" where
  "re_search [] = match_here []"
| "re_search (c # cs) =
     (case match_here (c # cs) of Some g \<Rightarrow> Some g | None \<Rightarrow> re_search cs)"

text \<open>\<open>extract_report_number\<close>, on the name of the file (\<open>filepath.name\<close>).\<close>

definition extract_report_number :: "string \<Rightarrow> string" where
  "extract_report_number name =
     (let filename = path_stem name
      in case re_search filename of Some group1 \<Rightarrow> group1 | None \<Rightarrow> filename)"

text \<open>
  The words of the specification: a marker is \<open>DDR\<close> (in any case) followed by white
  space, an optional \<open>#\<close> and white space, or \<open>#\<close> followed by white space; a numeric
  sequence follows a marker at a position of the file name.
\<close>

definition is_marker :: "string \<Rightarrow> bool" where
  "is_marker m \<longleftrightarrow>
     (\<exists>d w1 h w2. m = d @ w1 @ h @ w2 \<and> str_lower d = ''ddr'' \<and> (\<forall>c\<in>set w1. is_space c)
         \<and> (h = [] \<or> h = ''#'') \<and> (\<forall>c\<in>set w2. is_space c))
     \<or> (\<exists>w. m = ''#'' @ w \<and> (\<forall>c\<in>set w. is_space c))"

definition number_follows_marker :: "string \<Rightarrow> bool" where
  "number_follows_marker s \<longleftrightarrow>
     (\<exists>pre m d post. s = pre @ m @ d # post \<and> is_marker m \<and> is_digit d)"

section \<open>File and sheet driver\<close>

record risk_match =
  Report_Number :: string
  Time_Date :: string
  Risks :: string

text \<open>
  A file of the input folder: its name, and what reading gives. \<open>pd.ExcelFile\<close> raises
  or gives the sheets in the order of \<open>sheet_names\<close>; \<open>pd.read_excel\<close> on one sheet
  raises or gives its grid.
\<close>

record excel_file =
  file_name :: string
  file_book :: "py_error + (py_error + dataframe) list"

text \<open>The loop over the operations of one sheet (lines 145 to 152).\<close>

fun match_operations ::
  "string \<Rightarrow> string list \<Rightarrow> operation list \<Rightarrow> risk_match list \<Rightarrow> risk_match list" where
  "match_operations report_number keywords [] results = results"
| "match_operations report_number keywords (entry # entries) results =
     (let matched_keywords = search_keywords (details entry) keywords
      in if matched_keywords \<noteq> []
         then match_operations report_number keywords entries
                (results @ [\<lparr>Report_Number = report_number, Time_Date = time_date entry,
                              Risks = str_join '', '' matched_keywords\<rparr>])
         else match_operations report_number keywords entries results)"

text \<open>The loop over the sheets (lines 134 to 152).\<close>

fun process_sheets ::
  "string \<Rightarrow> string list \<Rightarrow> (py_error + dataframe) list \<Rightarrow> risk_match list
     \<Rightarrow> py_error + risk_match list" where
  "process_sheets report_number keywords [] results = Inr results"
| "process_sheets report_number keywords (sheet # sheets) results =
     (case sheet of
        Inl e \<Rightarrow> Inl e
      | Inr df \<Rightarrow>
          (case find_operations_column df of
             Inl e \<Rightarrow> Inl e
           | Inr ops_col \<Rightarrow>
               if ops_col = - 1 then process_sheets report_number keywords sheets results
               else (case find_operations_data df ops_col of
                       Inl e \<Rightarrow> Inl e
                     | Inr operations \<Rightarrow>
                         process_sheets report_number keywords sheets
                           (match_operations report_number keywords operations results))))"

definition process_ddr_file :: "excel_file \<Rightarrow> string list \<Rightarrow> py_error + risk_match list" where
  "process_ddr_file f keywords =
     (let report_number = extract_report_number (file_name f)
      in case file_book f of
           Inl e \<Rightarrow> Inl e
         | Inr sheets \<Rightarrow> process_sheets report_number keywords sheets [])"

text \<open>
  \<open>input_folder.glob('*.xlsx')\<close>: the entries of the folder, in the order the directory
  gives them, whose name ends with the suffix.
\<close>

definition glob_suffix :: "string \<Rightarrow> excel_file list \<Rightarrow> excel_file list" where
  "glob_suffix ext folder = filter (\<lambda>f. suffix ext (file_name f)) folder"

definition excel_files :: "excel_file list \<Rightarrow> excel_file list" where
  "excel_files input_folder = glob_suffix ''.xlsx'' input_folder @ glob_suffix ''.xls'' input_folder"

text \<open>
  \<open>process_all_files\<close>: the loop over the files, with \<open>all_results\<close> and the lines
  printed so far; \<open>except Exception\<close> catches every error of \<open>process_ddr_file\<close>.
\<close>

fun process_files ::
  "string list \<Rightarrow> excel_file list \<Rightarrow> risk_match list \<Rightarrow> string list
     \<Rightarrow> risk_match list \<times> string list" where
  "process_files keywords [] all_results out = (all_results, out)"
| "process_files keywords (f # fs) all_results out =
     (let out1 = out @ [''Processing: '' @ file_name f]
      in case process_ddr_file f keywords of
           Inr results \<Rightarrow>
             process_files keywords fs (all_results @ results)
               (out1 @ [''  Found '' @ dec (length results) @ '' risk entries''])
         | Inl e \<Rightarrow>
             process_files keywords fs all_results
               (out1 @ [''  Error processing file: '' @ error_text e]))"

definition process_all_files ::
  "excel_file list \<Rightarrow> string list \<Rightarrow> string list \<Rightarrow> risk_match list \<times> string list" where
  "process_all_files input_folder keywords out =
     process_files keywords (excel_files input_folder) [] out"

section \<open>Result Writer\<close>

text \<open>
  What lies at a path: a workbook, as its sheets in order, each with its name and its
  table, or a file that is no workbook. The state is the files and the lines printed.
\<close>

datatype stored = Workbook "(string \<times> risk_match list) list" | NotWorkbook

record world =
  files :: "string \<rightharpoonup> stored"
  console :: "string list"

text \<open>Writing a sheet with \<open>if_sheet_exists='replace'\<close>.\<close>

definition replace_sheet ::
  "string \<Rightarrow> risk_match list \<Rightarrow> (string \<times> risk_match list) list
     \<Rightarrow> (string \<times> risk_match list) list" where
  "replace_sheet sheet_name df sheets =
     (if sheet_name \<in> fst ` set sheets
      then map (\<lambda>(n, t). if n = sheet_name then (n, df) else (n, t)) sheets
      else sheets @ [(sheet_name, df)])"

text \<open>
  \<open>save_results\<close>; \<open>df.empty\<close> holds of the table without rows. Opening a file that is
  no workbook in append mode raises.
\<close>

definition save_results ::
  "risk_match list \<Rightarrow> string \<Rightarrow> string \<Rightarrow> world \<Rightarrow> py_error + world" where
  "save_results df output_path sheet_name w =
     (if df = [] then Inr (w\<lparr>console := console w @ [''No results to save.'']\<rparr>)
      else (case files w output_path of
              Some (Workbook sheets) \<Rightarrow>
                Inr (w\<lparr>files := (files w)(output_path \<mapsto> Workbook (replace_sheet sheet_name df sheets)),
                       console := console w @ [''Results saved to: '' @ output_path]\<rparr>)
            | Some NotWorkbook \<Rightarrow> Inl (ReadError ''File is not a zip file'')
            | None \<Rightarrow>
                Inr (w\<lparr>files := (files w)(output_path \<mapsto> Workbook [(sheet_name, df)]),
                       console := console w @ [''Results saved to: '' @ output_path]\<rparr>)))"

section \<open>The words of the specification for the Row Segmenter\<close>

text \<open>
  A narrative cell that is empty, blank or not a string; the Operation Row of a row,
  for the operations column \<open>j\<close>; the rows with a narrative, from a starting row on;
  the text of the second time cell; a plain value (present, and no timestamp).
\<close>

definition blank_narrative :: "cell \<Rightarrow> bool" where
  "blank_narrative v = (case v of CStr s \<Rightarrow> (\<forall>c\<in>set s. is_space c) | _ \<Rightarrow> True)"

definition row_entry :: "dataframe \<Rightarrow> nat \<Rightarrow> nat \<Rightarrow> operation" where
  "row_entry df j r =
     \<lparr>time_date = format_time_date (cell_at df r 0) (cell_at df r 1),
      details = (case cell_at df r j of CStr s \<Rightarrow> s | _ \<Rightarrow> [])\<rparr>"

definition narrative_rows :: "dataframe \<Rightarrow> nat \<Rightarrow> nat \<Rightarrow> nat list" where
  "narrative_rows df j start =
     filter (\<lambda>r. \<not> blank_narrative (cell_at df r j)) [start..<length (df_rows df)]"

fun time_to_str :: "cell \<Rightarrow> string" where
  "time_to_str CNaN = []"
| "time_to_str (CTimestamp t) = strftime_hm t"
| "time_to_str (CStr s) = s"
| "time_to_str (COther s) = s"

fun is_plain :: "cell \<Rightarrow> bool" where
  "is_plain (CStr s) = True"
| "is_plain (COther s) = True"
| "is_plain _ = False"

section \<open>The words of the specification for the driver\<close>

text \<open>
  What a file contributes to the result: its matches when it is processed, nothing when
  its processing fails; and the two lines printed for it.
\<close>

definition ok_results :: "string list \<Rightarrow> excel_file \<Rightarrow> risk_match list" where
  "ok_results keywords f =
     (case process_ddr_file f keywords of Inr results \<Rightarrow> results | Inl e \<Rightarrow> [])"

definition file_lines :: "string list \<Rightarrow> excel_file \<Rightarrow> string list" where
  "file_lines keywords f =
     [''Processing: '' @ file_name f,
      (case process_ddr_file f keywords of
         Inr results \<Rightarrow> ''  Found '' @ dec (length results) @ '' risk entries''
       | Inl e \<Rightarrow> ''  Error processing file: '' @ error_text e)]"

section \<open>Example data\<close>

definition ts_0600 :: timestamp where
  "ts_0600 = \<lparr>ts_year = 2024, ts_month = 3, ts_day = 5, ts_hour = 6, ts_minute = 0\<rparr>"

definition ts_0730 :: timestamp where
  "ts_0730 = \<lparr>ts_year = 2024, ts_month = 3, ts_day = 5, ts_hour = 7, ts_minute = 30\<rparr>"

definition report_sheet :: dataframe where
  "report_sheet = \<lparr>df_columns = 3, df_rows =
     [[CStr ''FROM'', CStr ''TO'', CStr ''Details of Operations in Sequence and Remarks''],
      [CNaN, CNaN, CNaN],
      [CTimestamp ts_0600, CTimestamp ts_0730, CStr ''High torque observed''],
      [CStr ''TOTAL'', COther ''24'', CNaN],
      [CNaN, CTimestamp ts_0730, CStr ''Worked stuck pipe''],
      [CNaN, COther ''7.5'', CStr ''Took a kick''],
      [COther ''6'', CNaN, CStr ''  ''],
      [COther ''6'', COther ''7'', CStr ''Circulated hole clean'']]\<rparr>"

definition one_column_sheet :: dataframe where
  "one_column_sheet = \<lparr>df_columns = 1, df_rows =
     [[CStr ''Details of operations''], [CNaN], [CStr ''Drilled ahead'']]\<rparr>"

definition partial_times_sheet :: dataframe where
  "partial_times_sheet = \<lparr>df_columns = 3, df_rows =
     [[CStr ''FROM'', CStr ''TO'', CStr ''DETAILS OF OPERATIONS''],
      [CNaN, CNaN, CNaN],
      [COther ''6'', CNaN, CStr ''Drilled ahead''],
      [CStr [], COther ''7.5'', CStr ''Took a kick'']]\<rparr>"

definition good_file :: excel_file where
  "good_file = \<lparr>file_name = ''DDR #42.xlsx'', file_book = Inr [Inr report_sheet]\<rparr>"

definition corrupt_file :: excel_file where
  "corrupt_file =
     \<lparr>file_name = ''DDR 43.xlsx'', file_book = Inl (ReadError ''File is not a zip file'')\<rparr>"

definition narrow_file :: excel_file where
  "narrow_file =
     \<lparr>file_name = ''DDR 44.xls'', file_book = Inr [Inr one_column_sheet]\<rparr>"

definition later_file :: excel_file where
  "later_file =
     \<lparr>file_name = ''morning_log.xlsx'', file_book = Inr [Inr partial_times_sheet]\<rparr>"

definition notes_file :: excel_file where
  "notes_file = \<lparr>file_name = ''notes.txt'', file_book = Inl (ReadError ''File is not a zip file'')\<rparr>"

section \<open>Properties of the text operations\<close>

lemma py_in_iff_sublist: "py_in sub s \<longleftrightarrow> sublist sub s"
  by (induction s) (auto simp: sublist_Cons_right)

lemma py_in_iff: "py_in sub s \<longleftrightarrow> (\<exists>pre post. s = pre @ sub @ post)"
  by (simp add: py_in_iff_sublist sublist_def)

lemma str_lower_append: "str_lower (a @ b) = str_lower a @ str_lower b"
  by (simp add: str_lower_def)

lemma of_char_lower_char:
  "(of_char (lower_char c) :: nat)
     = (if 65 \<le> (of_char c :: nat) \<and> (of_char c :: nat) \<le> 90 then of_char c + 32 else of_char c)"
  by (simp add: lower_char_def is_upper_char_def Let_def)

lemma of_char_upper_char:
  "(of_char (upper_char c) :: nat)
     = (if 97 \<le> (of_char c :: nat) \<and> (of_char c :: nat) \<le> 122 then of_char c - 32 else of_char c)"
  by (auto simp add: upper_char_def is_lower_char_def Let_def)

lemma lower_upper_char: "lower_char (upper_char c) = lower_char c"
proof -
  have "(of_char (lower_char (upper_char c)) :: nat) = of_char (lower_char c)"
    unfolding of_char_lower_char of_char_upper_char by (simp split: if_splits) arith?
  then show ?thesis by (simp only: of_char_eq_iff)
qed

lemma upper_lower_char: "upper_char (lower_char c) = upper_char c"
proof -
  have "(of_char (upper_char (lower_char c)) :: nat) = of_char (upper_char c)"
    unfolding of_char_lower_char of_char_upper_char by (simp split: if_splits) arith?
  then show ?thesis by (simp only: of_char_eq_iff)
qed

lemma str_lower_upper: "str_lower (str_upper s) = str_lower s"
  by (simp add: str_lower_def str_upper_def lower_upper_char)

lemma str_upper_lower: "str_upper (str_lower s) = str_upper s"
  by (simp add: str_lower_def str_upper_def upper_lower_char)

lemma py_in_map: "py_in a b \<Longrightarrow> py_in (map f a) (map f b)"
  unfolding py_in_iff by (metis map_append)

lemma target_upper: "str_upper ''DETAILS OF OPERATIONS'' = ''DETAILS OF OPERATIONS''"
  by code_simp

lemma header_case_insensitive:
  "py_in ''DETAILS OF OPERATIONS'' (str_upper s)
     \<longleftrightarrow> py_in (str_lower ''DETAILS OF OPERATIONS'') (str_lower s)"
proof
  assume "py_in ''DETAILS OF OPERATIONS'' (str_upper s)"
  then have "py_in (str_lower ''DETAILS OF OPERATIONS'') (str_lower (str_upper s))"
    unfolding str_lower_def by (rule py_in_map)
  then show "py_in (str_lower ''DETAILS OF OPERATIONS'') (str_lower s)"
    by (simp only: str_lower_upper)
next
  assume "py_in (str_lower ''DETAILS OF OPERATIONS'') (str_lower s)"
  then have "py_in (str_upper (str_lower ''DETAILS OF OPERATIONS'')) (str_upper (str_lower s))"
    unfolding str_upper_def by (rule py_in_map)
  then show "py_in ''DETAILS OF OPERATIONS'' (str_upper s)"
    by (simp only: str_upper_lower target_upper)
qed

lemma str_strip_Nil_iff: "str_strip s = [] \<longleftrightarrow> (\<forall>c\<in>set s. is_space c)"
proof -
  have "str_strip s = [] \<longleftrightarrow> (\<forall>c\<in>set (dropWhile is_space s). is_space c)"
    by (simp add: str_strip_def dropWhile_eq_Nil_conv)
  also have "\<dots> \<longleftrightarrow> dropWhile is_space s = []"
    by (metis hd_dropWhile list.set_sel(1) empty_iff list.set(1))
  also have "\<dots> \<longleftrightarrow> (\<forall>c\<in>set s. is_space c)"
    by (simp add: dropWhile_eq_Nil_conv)
  finally show ?thesis .
qed

lemma strftime_date_hm_not_Nil: "strftime_date_hm t \<noteq> []"
  by (simp add: strftime_date_hm_def)

section \<open>Lists: the first element that passes a test\<close>

lemma find_append:
  "List.find P (xs @ ys) = (case List.find P xs of None \<Rightarrow> List.find P ys | Some x \<Rightarrow> Some x)"
  by (induction xs) simp_all

lemma find_map_Pair:
  "List.find P (map (Pair r) cs) = map_option (Pair r) (List.find (\<lambda>c. P (r, c)) cs)"
  by (induction cs) simp_all

lemma find_upt_Some:
  "List.find P [0..<m] = Some c \<longleftrightarrow> c < m \<and> P c \<and> (\<forall>c'<c. \<not> P c')"
  by (auto simp: find_Some_iff)

lemma product_snoc:
  "List.product (xs @ [x]) ys = List.product xs ys @ map (Pair x) ys"
  by (induction xs) simp_all

lemma find_product_None:
  "List.find P (List.product [0..<m] [0..<k]) = None
     \<longleftrightarrow> (\<forall>r c. r < m \<and> c < k \<longrightarrow> \<not> P (r, c))"
  by (auto simp: find_None_iff)

lemma find_product_Some:
  "List.find P (List.product [0..<m] [0..<k]) = Some (r, c)
     \<longleftrightarrow> r < m \<and> c < k \<and> P (r, c)
          \<and> (\<forall>r' c'. c' < k \<and> (r' < r \<or> (r' = r \<and> c' < c)) \<longrightarrow> \<not> P (r', c'))"
proof (induction m arbitrary: r c)
  case 0
  then show ?case by simp
next
  case (Suc m)
  show ?case
  proof (cases "List.find P (List.product [0..<m] [0..<k])")
    case None
    then have none: "\<And>r' c'. r' < m \<Longrightarrow> c' < k \<Longrightarrow> \<not> P (r', c')"
      by (simp add: find_product_None)
    have "List.find P (List.product [0..<Suc m] [0..<k]) = Some (r, c)
            \<longleftrightarrow> r = m \<and> List.find (\<lambda>c. P (m, c)) [0..<k] = Some c"
      using None by (auto simp: product_snoc find_append find_map_Pair)
    also have "\<dots> \<longleftrightarrow> r = m \<and> c < k \<and> P (m, c) \<and> (\<forall>c'<c. \<not> P (m, c'))"
      by (simp only: find_upt_Some)
    also have "\<dots> \<longleftrightarrow> r < Suc m \<and> c < k \<and> P (r, c)
          \<and> (\<forall>r' c'. c' < k \<and> (r' < r \<or> (r' = r \<and> c' < c)) \<longrightarrow> \<not> P (r', c'))"
      using none by (metis (no_types, lifting) less_Suc_eq less_trans nat_neq_iff)
    finally show ?thesis .
  next
    case (Some x)
    obtain r0 c0 where x: "x = (r0, c0)" by (cases x)
    from Some x Suc.IH [of r0 c0] have first: "r0 < m" "c0 < k" "P (r0, c0)"
      by simp_all
    have "List.find P (List.product [0..<Suc m] [0..<k]) = Some (r, c)
            \<longleftrightarrow> List.find P (List.product [0..<m] [0..<k]) = Some (r, c)"
      using Some by (simp add: product_snoc find_append)
    also have "\<dots> \<longleftrightarrow> r < m \<and> c < k \<and> P (r, c)
          \<and> (\<forall>r' c'. c' < k \<and> (r' < r \<or> (r' = r \<and> c' < c)) \<longrightarrow> \<not> P (r', c'))"
      by (rule Suc.IH)
    also have "\<dots> \<longleftrightarrow> r < Suc m \<and> c < k \<and> P (r, c)
          \<and> (\<forall>r' c'. c' < k \<and> (r' < r \<or> (r' = r \<and> c' < c)) \<longrightarrow> \<not> P (r', c'))"
      using first by (metis less_Suc_eq)
    finally show ?thesis .
  qed
qed

section \<open>Keyword Matcher: the loops as filters\<close>

lemma search_keywords_loop_filter:
  "search_keywords_loop low kws matched = matched @ filter (\<lambda>kw. py_in (str_lower kw) low) kws"
  by (induction kws arbitrary: matched) simp_all

lemma search_keywords_filter:
  "search_keywords text keywords =
     filter (\<lambda>kw. py_in (str_lower kw) (str_lower text)) keywords"
  by (simp add: search_keywords_def search_keywords_loop_filter)

lemma match_operations_eq:
  "match_operations rn kws entries results =
     results @ map (\<lambda>e. \<lparr>Report_Number = rn, Time_Date = time_date e,
                          Risks = str_join '', '' (search_keywords (details e) kws)\<rparr>)
                 (filter (\<lambda>e. search_keywords (details e) kws \<noteq> []) entries)"
  by (induction entries arbitrary: results) (simp_all add: Let_def)

section \<open>Keyword Matcher: the claims\<close>

text \<open>
  C1: for every narrative and every keyword list, a keyword is in the result of
  \<open>search_keywords\<close> exactly when it is in the list and its lower-cased form occurs as a
  substring of the lower-cased narrative; in particular every narrative that contains
  \<open>STUCK pipe\<close> matches the keyword \<open>Stuck\<close>.
\<close>

theorem search_keywords_case_insensitive_substring:
  "(kw \<in> set (search_keywords text keywords) \<longleftrightarrow>
      kw \<in> set keywords \<and> (\<exists>pre post. str_lower text = pre @ str_lower kw @ post))
   \<and> (''Stuck'' \<in> set keywords \<longrightarrow>
        ''Stuck'' \<in> set (search_keywords (before @ ''STUCK pipe'' @ after) keywords))"
proof
  show "kw \<in> set (search_keywords text keywords) \<longleftrightarrow>
      kw \<in> set keywords \<and> (\<exists>pre post. str_lower text = pre @ str_lower kw @ post)"
    by (simp add: search_keywords_filter py_in_iff)
next
  have low: "str_lower ''STUCK pipe'' = str_lower ''Stuck'' @ '' pipe''"
    by code_simp
  have "str_lower (before @ ''STUCK pipe'' @ after)
          = str_lower before @ str_lower ''Stuck'' @ ('' pipe'' @ str_lower after)"
    by (simp only: str_lower_append low append_assoc)
  then have "py_in (str_lower ''Stuck'') (str_lower (before @ ''STUCK pipe'' @ after))"
    unfolding py_in_iff by blast
  then show "''Stuck'' \<in> set keywords \<longrightarrow>
        ''Stuck'' \<in> set (search_keywords (before @ ''STUCK pipe'' @ after) keywords)"
    by (simp add: search_keywords_filter)
qed

theorem search_keywords_case_insensitive_substring_witness:
  "''Stuck'' \<in> set (search_keywords ''Worked STUCK pipe free'' RISK_KEYWORDS)
   \<and> ''Torque'' \<notin> set (search_keywords ''Worked STUCK pipe free'' RISK_KEYWORDS)"
proof -
  have mem: "''Stuck'' \<in> set RISK_KEYWORDS"
    by (simp add: RISK_KEYWORDS_def)
  have no: "\<not> py_in (str_lower ''Torque'') (str_lower ''Worked STUCK pipe free'')"
    by code_simp
  have "''Stuck'' \<in> set (search_keywords (''Worked '' @ ''STUCK pipe'' @ '' free'') RISK_KEYWORDS)"
    using search_keywords_case_insensitive_substring
      [of "''Stuck''" "''''" RISK_KEYWORDS "''Worked ''" "'' free''"] mem
    by blast
  moreover have "''Torque'' \<notin> set (search_keywords ''Worked STUCK pipe free'' RISK_KEYWORDS)"
    using search_keywords_case_insensitive_substring
      [of "''Torque''" "''Worked STUCK pipe free''" RISK_KEYWORDS "''''" "''''"] no
    unfolding py_in_iff by blast
  ultimately show ?thesis by simp
qed

text \<open>
  C2: a narrative that matches several keywords gets all of them, in the order of the
  keyword list: \<open>search_keywords\<close> is the filter of the list by the match test; the Risk
  Match of an entry joins its matched keywords with a comma and a space; the narrative
  \<open>Observed high torque and signs of stuck pipe\<close> with the list \<open>Torque\<close>, \<open>Stuck\<close> gives
  both keywords and the joined text \<open>Torque, Stuck\<close>.
\<close>

theorem all_matches_in_order_joined:
  "search_keywords text keywords
      = filter (\<lambda>kw. py_in (str_lower kw) (str_lower text)) keywords
   \<and> match_operations report_number keywords entries []
      = map (\<lambda>e. \<lparr>Report_Number = report_number, Time_Date = time_date e,
                    Risks = str_join '', '' (search_keywords (details e) keywords)\<rparr>)
            (filter (\<lambda>e. search_keywords (details e) keywords \<noteq> []) entries)
   \<and> str_join sep (x # y # ys) = x @ sep @ str_join sep (y # ys)
   \<and> search_keywords ''Observed high torque and signs of stuck pipe'' [''Torque'', ''Stuck'']
      = [''Torque'', ''Stuck'']
   \<and> str_join '', '' [''Torque'', ''Stuck''] = ''Torque, Stuck''"
proof (intro conjI)
  show "search_keywords text keywords
      = filter (\<lambda>kw. py_in (str_lower kw) (str_lower text)) keywords"
    by (rule search_keywords_filter)
  show "match_operations report_number keywords entries []
      = map (\<lambda>e. \<lparr>Report_Number = report_number, Time_Date = time_date e,
                    Risks = str_join '', '' (search_keywords (details e) keywords)\<rparr>)
            (filter (\<lambda>e. search_keywords (details e) keywords \<noteq> []) entries)"
    by (simp add: match_operations_eq)
  show "str_join sep (x # y # ys) = x @ sep @ str_join sep (y # ys)"
    by simp
  show "search_keywords ''Observed high torque and signs of stuck pipe'' [''Torque'', ''Stuck'']
      = [''Torque'', ''Stuck'']"
    by code_simp
  show "str_join '', '' [''Torque'', ''Stuck''] = ''Torque, Stuck''"
    by simp
qed

theorem all_matches_in_order_joined_witness:
  "match_operations ''42'' [''Torque'', ''Stuck'']
     [\<lparr>time_date = ''06:00 to 07:30'', details = ''Observed high torque and signs of stuck pipe''\<rparr>,
      \<lparr>time_date = ''07:30 to 08:00'', details = ''Circulated hole clean''\<rparr>] []
   = [\<lparr>Report_Number = ''42'', Time_Date = ''06:00 to 07:30'', Risks = ''Torque, Stuck''\<rparr>]"
proof -
  have a: "search_keywords ''Observed high torque and signs of stuck pipe'' [''Torque'', ''Stuck'']
             = [''Torque'', ''Stuck'']"
    by code_simp
  have b: "search_keywords ''Circulated hole clean'' [''Torque'', ''Stuck''] = []"
    by code_simp
  show ?thesis
    using all_matches_in_order_joined
      [of "''x''" "[''Torque'', ''Stuck'']" "''42''"
          "[\<lparr>time_date = ''06:00 to 07:30'', details = ''Observed high torque and signs of stuck pipe''\<rparr>,
            \<lparr>time_date = ''07:30 to 08:00'', details = ''Circulated hole clean''\<rparr>]"
          "'', ''" "''a''" "''b''" "[]"]
    by (simp add: a b)
qed

section \<open>Header Locator: the scan as a search\<close>

lemma col_pos_int: "j < df_columns df \<Longrightarrow> col_pos df (int j) = Some j"
  by (simp add: col_pos_def Let_def)

lemma iloc_inside:
  "r < length (df_rows df) \<Longrightarrow> j < df_columns df \<Longrightarrow> iloc df r (int j) = Inr (cell_at df r j)"
  by (simp add: iloc_def col_pos_int)

lemma find_in_row_eq:
  "r < length (df_rows df) \<Longrightarrow> \<forall>c\<in>set cols. c < df_columns df \<Longrightarrow>
     find_in_row df r cols
       = Inr (map_option int (List.find (\<lambda>c. is_header_text (cell_at df r c)) cols))"
  by (induction cols) (simp_all add: iloc_inside)

lemma find_in_rows_eq:
  "\<forall>r\<in>set rs. r < length (df_rows df) \<Longrightarrow>
     find_in_rows df rs
       = Inr (case List.find (\<lambda>(r, c). is_header_text (cell_at df r c))
                     (List.product rs [0..<df_columns df]) of
                None \<Rightarrow> - 1 | Some (r, c) \<Rightarrow> int c)"
proof (induction rs)
  case Nil
  then show ?case by simp
next
  case (Cons r rs)
  then have r: "r < length (df_rows df)" by simp
  have row: "find_in_row df r [0..<df_columns df]
       = Inr (map_option int (List.find (\<lambda>c. is_header_text (cell_at df r c)) [0..<df_columns df]))"
    using r by (intro find_in_row_eq) simp_all
  show ?case
  proof (cases "List.find (\<lambda>c. is_header_text (cell_at df r c)) [0..<df_columns df]")
    case None
    then show ?thesis using Cons row by (simp add: find_append find_map_Pair)
  next
    case (Some c)
    then show ?thesis using row by (simp add: find_append find_map_Pair)
  qed
qed

text \<open>
  C4: \<open>find_operations_column\<close> never raises; it returns the column of the first cell,
  in row-major order over the first 100 rows (all rows when there are fewer) and all
  columns, that is a string containing the target text without regard to case, and
  \<open>- 1\<close> when there is no such cell. A cell that is no string is passed over.
\<close>

theorem find_operations_column_first_match:
  "find_operations_column df
     = Inr (case List.find (\<lambda>(r, c). is_header_text (cell_at df r c))
                   (List.product [0..<min 100 (length (df_rows df))] [0..<df_columns df]) of
              None \<Rightarrow> - 1 | Some (r, c) \<Rightarrow> int c)
   \<and> (List.find (\<lambda>(r, c). is_header_text (cell_at df r c))
          (List.product [0..<min 100 (length (df_rows df))] [0..<df_columns df]) = None
        \<longleftrightarrow> (\<forall>r c. r < min 100 (length (df_rows df)) \<and> c < df_columns df
                    \<longrightarrow> \<not> is_header_text (cell_at df r c)))
   \<and> (List.find (\<lambda>(r, c). is_header_text (cell_at df r c))
          (List.product [0..<min 100 (length (df_rows df))] [0..<df_columns df]) = Some (r, c)
        \<longleftrightarrow> r < min 100 (length (df_rows df)) \<and> c < df_columns df
            \<and> is_header_text (cell_at df r c)
            \<and> (\<forall>r' c'. c' < df_columns df \<and> (r' < r \<or> (r' = r \<and> c' < c))
                    \<longrightarrow> \<not> is_header_text (cell_at df r' c')))
   \<and> (is_header_text v
        \<longleftrightarrow> (\<exists>s. v = CStr s \<and> py_in (str_lower ''DETAILS OF OPERATIONS'') (str_lower s)))"
proof (intro conjI)
  show "find_operations_column df
     = Inr (case List.find (\<lambda>(r, c). is_header_text (cell_at df r c))
                   (List.product [0..<min 100 (length (df_rows df))] [0..<df_columns df]) of
              None \<Rightarrow> - 1 | Some (r, c) \<Rightarrow> int c)"
    unfolding find_operations_column_def by (rule find_in_rows_eq) simp
  show "List.find (\<lambda>(r, c). is_header_text (cell_at df r c))
          (List.product [0..<min 100 (length (df_rows df))] [0..<df_columns df]) = None
        \<longleftrightarrow> (\<forall>r c. r < min 100 (length (df_rows df)) \<and> c < df_columns df
                    \<longrightarrow> \<not> is_header_text (cell_at df r c))"
    by (simp only: find_product_None split)
  show "List.find (\<lambda>(r, c). is_header_text (cell_at df r c))
          (List.product [0..<min 100 (length (df_rows df))] [0..<df_columns df]) = Some (r, c)
        \<longleftrightarrow> r < min 100 (length (df_rows df)) \<and> c < df_columns df
            \<and> is_header_text (cell_at df r c)
            \<and> (\<forall>r' c'. c' < df_columns df \<and> (r' < r \<or> (r' = r \<and> c' < c))
                    \<longrightarrow> \<not> is_header_text (cell_at df r' c'))"
    by (simp only: find_product_Some split)
  show "is_header_text v
        \<longleftrightarrow> (\<exists>s. v = CStr s \<and> py_in (str_lower ''DETAILS OF OPERATIONS'') (str_lower s))"
    by (cases v) (simp_all add: is_header_text_def header_case_insensitive)
qed

theorem find_operations_column_first_match_witness:
  "find_operations_column report_sheet = Inr 2
   \<and> is_header_text (cell_at report_sheet 0 2)
   \<and> find_operations_column \<lparr>df_columns = 2, df_rows = [[COther ''1'', CNaN]]\<rparr> = Inr (- 1)"
proof -
  have a: "(case List.find (\<lambda>(r, c). is_header_text (cell_at report_sheet r c))
                 (List.product [0..<min 100 (length (df_rows report_sheet))]
                    [0..<df_columns report_sheet]) of
              None \<Rightarrow> - 1 | Some (r, c) \<Rightarrow> int c) = 2"
    by code_simp
  have b: "(case List.find (\<lambda>(r, c). is_header_text
                    (cell_at \<lparr>df_columns = 2, df_rows = [[COther ''1'', CNaN]]\<rparr> r c))
                 (List.product
                    [0..<min 100 (length (df_rows \<lparr>df_columns = 2, df_rows = [[COther ''1'', CNaN]]\<rparr>))]
                    [0..<df_columns \<lparr>df_columns = 2, df_rows = [[COther ''1'', CNaN]]\<rparr>]) of
              None \<Rightarrow> - 1 | Some (r, c) \<Rightarrow> int c) = - 1"
    by code_simp
  have c: "cell_at report_sheet 0 2 = CStr ''Details of Operations in Sequence and Remarks''"
    by code_simp
  have d: "py_in (str_lower ''DETAILS OF OPERATIONS'')
             (str_lower ''Details of Operations in Sequence and Remarks'')"
    by code_simp
  from find_operations_column_first_match [of report_sheet 0 2 "cell_at report_sheet 0 2"] a
  have "find_operations_column report_sheet = Inr 2" by simp
  moreover from find_operations_column_first_match [of report_sheet 0 2 "cell_at report_sheet 0 2"] c d
  have "is_header_text (cell_at report_sheet 0 2)" by simp
  moreover from find_operations_column_first_match
      [of "\<lparr>df_columns = 2, df_rows = [[COther ''1'', CNaN]]\<rparr>" 0 0 CNaN] b
  have "find_operations_column \<lparr>df_columns = 2, df_rows = [[COther ''1'', CNaN]]\<rparr> = Inr (- 1)"
    by simp
  ultimately show ?thesis by simp
qed

section \<open>Row Segmenter: the loops as a search and a filter\<close>

lemma narrative_of_None_iff: "narrative_of v = None \<longleftrightarrow> blank_narrative v"
  by (cases v) (simp_all add: blank_narrative_def str_strip_Nil_iff)

lemma narrative_of_Some: "narrative_of v = Some s \<Longrightarrow> v = CStr s"
  by (cases v) (simp_all split: if_splits)

lemma iloc_Inr:
  "col_pos df c = Some j \<Longrightarrow> r < length (df_rows df) \<Longrightarrow> iloc df r c = Inr (cell_at df r j)"
  by (simp add: iloc_def)

lemma iloc_Inr_D:
  "iloc df r c = Inr v \<Longrightarrow> \<exists>j. col_pos df c = Some j \<and> v = cell_at df r j"
  by (auto simp: iloc_def split: option.splits if_splits)

lemma col_pos_0: "col_pos df 0 = Some j \<Longrightarrow> j = 0"
  by (simp add: col_pos_def Let_def split: if_splits)

lemma col_pos_1: "col_pos df 1 = Some j \<Longrightarrow> j = 1"
  by (simp add: col_pos_def Let_def split: if_splits)

lemma find_header_row_eq:
  "col_pos df c = Some j \<Longrightarrow> \<forall>r\<in>set rs. r < length (df_rows df) \<Longrightarrow>
     find_header_row df c rs
       = Inr (case List.find (\<lambda>r. is_header_text (cell_at df r j)) rs of
                None \<Rightarrow> - 1 | Some h \<Rightarrow> int h)"
  by (induction rs) (simp_all add: iloc_Inr)

text \<open>What one row gives when it gives a result.\<close>

lemma segment_row_Inr:
  assumes "segment_row df c r = Inr x" and "col_pos df c = Some j"
  shows "x = (if blank_narrative (cell_at df r j) then None else Some (row_entry df j r))"
proof -
  from assms obtain v where v: "iloc df r c = Inr v"
    by (auto simp: segment_row_def split: sum.splits)
  with assms(2) have vj: "v = cell_at df r j"
    by (auto dest: iloc_Inr_D)
  show ?thesis
  proof (cases "narrative_of v")
    case None
    then have "blank_narrative (cell_at df r j)"
      using vj narrative_of_None_iff [of v] by simp
    moreover have "x = None"
      using assms(1) v None by (auto simp: segment_row_def split: sum.splits)
    ultimately show ?thesis by simp
  next
    case (Some s)
    then have nb: "\<not> blank_narrative (cell_at df r j)"
      using vj narrative_of_None_iff [of v] by simp
    from Some have vs: "cell_at df r j = CStr s" using vj narrative_of_Some by metis
    from assms(1) v Some obtain a b where
      ab: "iloc df r 0 = Inr a" "iloc df r 1 = Inr b"
        "x = Some \<lparr>time_date = format_time_date a b, details = s\<rparr>"
      by (auto simp: segment_row_def split: sum.splits)
    from ab(1) have "a = cell_at df r 0" by (auto dest!: iloc_Inr_D dest: col_pos_0)
    moreover from ab(2) have "b = cell_at df r 1" by (auto dest!: iloc_Inr_D dest: col_pos_1)
    ultimately show ?thesis using ab(3) nb vs by (simp add: row_entry_def)
  qed
qed

text \<open>With the operations column inside a grid of two columns or more, a row gives a result.\<close>

lemma segment_row_total:
  assumes "col_pos df c = Some j" and "2 \<le> df_columns df" and "r < length (df_rows df)"
  shows "\<exists>x. segment_row df c r = Inr x"
proof -
  have c0: "col_pos df 0 = Some 0" and c1: "col_pos df 1 = Some 1"
    using assms(2) by (simp_all add: col_pos_def Let_def)
  show ?thesis
    using assms(1,3) c0 c1
    by (simp add: segment_row_def iloc_Inr split: option.splits)
qed

lemma data_loop_Inr:
  assumes "data_loop df c rs results = Inr ops" and "col_pos df c = Some j"
  shows "ops = results @ map (row_entry df j)
                 (filter (\<lambda>r. \<not> blank_narrative (cell_at df r j)) rs)"
  using assms
proof (induction rs arbitrary: results)
  case Nil
  then show ?case by simp
next
  case (Cons r rs)
  from Cons.prems(1) obtain x where x: "segment_row df c r = Inr x"
    by (auto split: sum.splits)
  note sx = segment_row_Inr [OF x Cons.prems(2)]
  show ?case
  proof (cases "blank_narrative (cell_at df r j)")
    case True
    with sx x Cons.prems have "data_loop df c rs results = Inr ops" by simp
    from Cons.IH [OF this Cons.prems(2)] True show ?thesis by simp
  next
    case False
    with sx x Cons.prems have "data_loop df c rs (results @ [row_entry df j r]) = Inr ops" by simp
    from Cons.IH [OF this Cons.prems(2)] False show ?thesis by simp
  qed
qed

lemma data_loop_total:
  assumes "col_pos df c = Some j" and "2 \<le> df_columns df"
    and "\<forall>r\<in>set rs. r < length (df_rows df)"
  shows "\<exists>ops. data_loop df c rs results = Inr ops"
  using assms(3)
proof (induction rs arbitrary: results)
  case Nil
  then show ?case by simp
next
  case (Cons r rs)
  then obtain x where x: "segment_row df c r = Inr x"
    using segment_row_total [OF assms(1,2), of r] by auto
  show ?case using x Cons by (cases x) simp_all
qed

lemma find_operations_data_Inr:
  assumes "find_operations_data df c = Inr ops" and "col_pos df c = Some j"
  shows "ops = (case List.find (\<lambda>r. is_header_text (cell_at df r j))
                       [0..<min 100 (length (df_rows df))] of
                  None \<Rightarrow> []
                | Some h \<Rightarrow> map (row_entry df j) (narrative_rows df j (h + 2)))"
proof -
  have hdr: "find_header_row df c [0..<min 100 (length (df_rows df))]
       = Inr (case List.find (\<lambda>r. is_header_text (cell_at df r j))
                     [0..<min 100 (length (df_rows df))] of
                None \<Rightarrow> - 1 | Some h \<Rightarrow> int h)"
    using assms(2) by (intro find_header_row_eq) simp_all
  show ?thesis
  proof (cases "List.find (\<lambda>r. is_header_text (cell_at df r j))
                  [0..<min 100 (length (df_rows df))]")
    case None
    then show ?thesis using assms(1) hdr by (simp add: find_operations_data_def)
  next
    case (Some h)
    have "nat (int h + 2) = h + 2" by simp
    then have "data_loop df c [h + 2..<length (df_rows df)] [] = Inr ops"
      using assms(1) hdr Some by (simp add: find_operations_data_def Let_def)
    from data_loop_Inr [OF this assms(2)] show ?thesis
      using Some by (simp add: narrative_rows_def)
  qed
qed

lemma find_operations_data_total:
  assumes "col_pos df c = Some j" and "2 \<le> df_columns df"
  shows "\<exists>ops. find_operations_data df c = Inr ops"
proof -
  have hdr: "find_header_row df c [0..<min 100 (length (df_rows df))]
       = Inr (case List.find (\<lambda>r. is_header_text (cell_at df r j))
                     [0..<min 100 (length (df_rows df))] of
                None \<Rightarrow> - 1 | Some h \<Rightarrow> int h)"
    using assms(1) by (intro find_header_row_eq) simp_all
  show ?thesis
  proof (cases "List.find (\<lambda>r. is_header_text (cell_at df r j))
                  [0..<min 100 (length (df_rows df))]")
    case None
    then show ?thesis using hdr by (simp add: find_operations_data_def)
  next
    case (Some h)
    have "\<exists>ops. data_loop df c [h + 2..<length (df_rows df)] [] = Inr ops"
      using assms by (intro data_loop_total) simp_all
    moreover have "nat (int h + 2) = h + 2" by simp
    ultimately show ?thesis
      using hdr Some by (simp add: find_operations_data_def Let_def)
  qed
qed

lemma find_operations_data_rows:
  assumes "find_operations_data df c = Inr ops" and "col_pos df c = Some j"
  shows "\<exists>start. ops = map (row_entry df j) (narrative_rows df j start)"
proof (cases "List.find (\<lambda>r. is_header_text (cell_at df r j))
                [0..<min 100 (length (df_rows df))]")
  case None
  with find_operations_data_Inr [OF assms] have "ops = []" by simp
  then have "ops = map (row_entry df j) (narrative_rows df j (length (df_rows df)))"
    by (simp add: narrative_rows_def)
  then show ?thesis ..
next
  case (Some h)
  with find_operations_data_Inr [OF assms] show ?thesis by auto
qed

lemma details_row_entry:
  "\<not> blank_narrative (cell_at df r j) \<Longrightarrow> \<not> blank_narrative (CStr (details (row_entry df j r)))"
  by (cases "cell_at df r j") (simp_all add: row_entry_def blank_narrative_def)

lemma report_sheet_data:
  "find_operations_data report_sheet 2 =
     Inr [\<lparr>time_date = ''2024-03-05 06:00 to 07:30'', details = ''High torque observed''\<rparr>,
          \<lparr>time_date = '' to 07:30'', details = ''Worked stuck pipe''\<rparr>,
          \<lparr>time_date = [], details = ''Took a kick''\<rparr>,
          \<lparr>time_date = ''6 to 7'', details = ''Circulated hole clean''\<rparr>]"
  by code_simp

lemma report_sheet_col: "col_pos report_sheet 2 = Some 2"
  by code_simp

section \<open>Row Segmenter: the claims\<close>

text \<open>
  C3: whenever the Row Segmenter returns, its entries are the Operation Rows of the rows
  with a narrative, from some row on; a row whose narrative cell is empty, blank or no
  string is none of these rows, whatever its other cells hold, and no entry has a blank
  narrative. The test of the source skips exactly the empty, blank and non-string cells.
\<close>

theorem blank_narrative_rows_excluded:
  assumes "find_operations_data df ops_col = Inr ops" and "col_pos df ops_col = Some j"
  shows "(\<exists>start. ops = map (row_entry df j) (narrative_rows df j start))
       \<and> (blank_narrative (cell_at df r j) \<longrightarrow> r \<notin> set (narrative_rows df j from_row))
       \<and> (\<forall>e\<in>set ops. \<not> blank_narrative (CStr (details e)))
       \<and> (narrative_of v = None \<longleftrightarrow> blank_narrative v)"
proof (intro conjI)
  from find_operations_data_rows [OF assms] obtain start
    where ops: "ops = map (row_entry df j) (narrative_rows df j start)" ..
  then show "\<exists>start. ops = map (row_entry df j) (narrative_rows df j start)" ..
  show "blank_narrative (cell_at df r j) \<longrightarrow> r \<notin> set (narrative_rows df j from_row)"
    by (simp add: narrative_rows_def)
  show "\<forall>e\<in>set ops. \<not> blank_narrative (CStr (details e))"
    unfolding ops by (auto simp: narrative_rows_def dest: details_row_entry)
  show "narrative_of v = None \<longleftrightarrow> blank_narrative v"
    by (rule narrative_of_None_iff)
qed

theorem blank_narrative_rows_excluded_witness:
  "find_operations_data report_sheet 2 =
     Inr [\<lparr>time_date = ''2024-03-05 06:00 to 07:30'', details = ''High torque observed''\<rparr>,
          \<lparr>time_date = '' to 07:30'', details = ''Worked stuck pipe''\<rparr>,
          \<lparr>time_date = [], details = ''Took a kick''\<rparr>,
          \<lparr>time_date = ''6 to 7'', details = ''Circulated hole clean''\<rparr>]
   \<and> cell_at report_sheet 3 0 = CStr ''TOTAL'' \<and> cell_at report_sheet 3 1 = COther ''24''
   \<and> 3 \<notin> set (narrative_rows report_sheet 2 2)
   \<and> cell_at report_sheet 6 0 = COther ''6''
   \<and> 6 \<notin> set (narrative_rows report_sheet 2 2)"
proof -
  have b3: "blank_narrative (cell_at report_sheet 3 2)" by code_simp
  have b6: "blank_narrative (cell_at report_sheet 6 2)" by code_simp
  have c: "cell_at report_sheet 3 0 = CStr ''TOTAL''" "cell_at report_sheet 3 1 = COther ''24''"
    "cell_at report_sheet 6 0 = COther ''6''"
    by code_simp+
  from blank_narrative_rows_excluded [OF report_sheet_data report_sheet_col, of 3 2] b3
  have "3 \<notin> set (narrative_rows report_sheet 2 2)" by blast
  moreover from blank_narrative_rows_excluded [OF report_sheet_data report_sheet_col, of 6 2] b6
  have "6 \<notin> set (narrative_rows report_sheet 2 2)" by blast
  ultimately show ?thesis using report_sheet_data c by simp
qed

text \<open>
  C7, as the source has it on a grid of one column: the header is found in row 0 of column 0 and
  row 2 has a narrative, and the Row Segmenter raises \<open>IndexError\<close> at the read of column 1
  instead of giving one entry.
\<close>

theorem one_column_grid_raises:
  "rectangular one_column_sheet
   \<and> find_operations_column one_column_sheet = Inr 0
   \<and> List.find (\<lambda>r. is_header_text (cell_at one_column_sheet r 0))
        [0..<min 100 (length (df_rows one_column_sheet))] = Some 0
   \<and> narrative_rows one_column_sheet 0 2 = [2]
   \<and> find_operations_data one_column_sheet 0 = Inl IndexError"
  by code_simp

text \<open>
  C7, amended: on a grid of two columns or more, with the operations column a column of
  the grid, the Row Segmenter returns: nothing when no cell of the operations column in the
  first 100 rows is a header; otherwise, with \<open>h\<close> the first header row, one entry for
  each row from \<open>h + 2\<close> on whose narrative is not skipped, in the order of the rows.
\<close>

theorem find_operations_data_two_rows_below_header:
  assumes "col_pos df ops_col = Some j" and "2 \<le> df_columns df"
  shows "find_operations_data df ops_col
           = Inr (case List.find (\<lambda>r. is_header_text (cell_at df r j))
                         [0..<min 100 (length (df_rows df))] of
                    None \<Rightarrow> []
                  | Some h \<Rightarrow> map (row_entry df j)
                      (filter (\<lambda>r. \<not> blank_narrative (cell_at df r j))
                         [h + 2..<length (df_rows df)]))"
proof -
  from find_operations_data_total [OF assms] obtain ops
    where ops: "find_operations_data df ops_col = Inr ops" ..
  from find_operations_data_Inr [OF ops assms(1)] ops show ?thesis
    unfolding narrative_rows_def by simp
qed

theorem find_operations_data_two_rows_below_header_witness:
  "find_operations_data report_sheet 2 =
     Inr (map (row_entry report_sheet 2) [2, 4, 5, 7])
   \<and> find_operations_data report_sheet 0 = Inr []"
proof -
  have c2: "col_pos report_sheet 2 = Some 2" and c0: "col_pos report_sheet 0 = Some 0"
    and n: "2 \<le> df_columns report_sheet"
    by code_simp+
  have a: "(case List.find (\<lambda>r. is_header_text (cell_at report_sheet r 2))
                         [0..<min 100 (length (df_rows report_sheet))] of
                    None \<Rightarrow> []
                  | Some h \<Rightarrow> map (row_entry report_sheet 2)
                      (filter (\<lambda>r. \<not> blank_narrative (cell_at report_sheet r 2))
                         [h + 2..<length (df_rows report_sheet)]))
            = map (row_entry report_sheet 2) [2, 4, 5, 7]"
    by code_simp
  have b: "(case List.find (\<lambda>r. is_header_text (cell_at report_sheet r 0))
                         [0..<min 100 (length (df_rows report_sheet))] of
                    None \<Rightarrow> []
                  | Some h \<Rightarrow> map (row_entry report_sheet 0)
                      (filter (\<lambda>r. \<not> blank_narrative (cell_at report_sheet r 0))
                         [h + 2..<length (df_rows report_sheet)]))
            = []"
    by code_simp
  show ?thesis
    using find_operations_data_two_rows_below_header [OF c2 n]
      find_operations_data_two_rows_below_header [OF c0 n] a b
    by simp
qed

text \<open>
  C6, as the source has it: a plain first value with a missing second one gives the
  value alone, with no \<open>to\<close> part; an empty string as first value with a plain second
  value gives the empty text, not the two values joined.
\<close>

theorem time_text_not_value_to_value:
  "rectangular partial_times_sheet
   \<and> find_operations_data partial_times_sheet 2 =
       Inr [\<lparr>time_date = ''6'', details = ''Drilled ahead''\<rparr>,
            \<lparr>time_date = [], details = ''Took a kick''\<rparr>]
   \<and> cell_at partial_times_sheet 2 0 = COther ''6'' \<and> cell_at partial_times_sheet 2 1 = CNaN
   \<and> \<not> py_in '' to '' (time_date (row_entry partial_times_sheet 2 2))
   \<and> cell_at partial_times_sheet 3 0 = CStr [] \<and> cell_at partial_times_sheet 3 1 = COther ''7.5''
   \<and> time_date (row_entry partial_times_sheet 2 3) \<noteq> [] @ '' to '' @ ''7.5''"
  by code_simp

text \<open>
  C6, amended: the time text of an entry is built from the first two cells of its row. Two
  timestamps give the start as date and time, \<open>to\<close>, and the end as time. Two present
  values of which one at least is plain give the text of the first, \<open>to\<close>, and the text
  of the second, when the text of the first is not empty. A missing second cell gives the
  text of the first cell alone. Two missing cells give the empty text.
\<close>

theorem time_text_format:
  assumes "find_operations_data df ops_col = Inr ops" and "col_pos df ops_col = Some j"
  shows "(\<exists>start. ops = map (row_entry df j) (narrative_rows df j start))
       \<and> time_date (row_entry df j r) = format_time_date (cell_at df r 0) (cell_at df r 1)
       \<and> format_time_date (CTimestamp a) (CTimestamp b)
           = strftime_date_hm a @ '' to '' @ strftime_hm b
       \<and> (x \<noteq> CNaN \<and> y \<noteq> CNaN \<and> (is_plain x \<or> is_plain y) \<and> time_from_str x \<noteq> []
            \<longrightarrow> format_time_date x y = time_from_str x @ '' to '' @ time_to_str y)
       \<and> time_from_str (CTimestamp a) \<noteq> []
       \<and> format_time_date x CNaN = time_from_str x
       \<and> format_time_date CNaN CNaN = []"
proof (intro conjI)
  show "\<exists>start. ops = map (row_entry df j) (narrative_rows df j start)"
    by (rule find_operations_data_rows [OF assms])
  show "time_date (row_entry df j r) = format_time_date (cell_at df r 0) (cell_at df r 1)"
    by (simp add: row_entry_def)
  show "format_time_date (CTimestamp a) (CTimestamp b)
           = strftime_date_hm a @ '' to '' @ strftime_hm b"
    by (simp add: format_time_date_def)
  show "x \<noteq> CNaN \<and> y \<noteq> CNaN \<and> (is_plain x \<or> is_plain y) \<and> time_from_str x \<noteq> []
            \<longrightarrow> format_time_date x y = time_from_str x @ '' to '' @ time_to_str y"
    by (cases x; cases y) (simp_all add: format_time_date_def)
  show "time_from_str (CTimestamp a) \<noteq> []"
    by (simp add: strftime_date_hm_not_Nil)
  show "format_time_date x CNaN = time_from_str x"
    by (simp add: format_time_date_def)
  show "format_time_date CNaN CNaN = []"
    by (simp add: format_time_date_def)
qed

theorem time_text_format_witness:
  "time_date (row_entry report_sheet 2 2) = ''2024-03-05 06:00 to 07:30''
   \<and> time_date (row_entry report_sheet 2 7) = ''6 to 7''
   \<and> (\<exists>start. [\<lparr>time_date = ''2024-03-05 06:00 to 07:30'', details = ''High torque observed''\<rparr>,
          \<lparr>time_date = '' to 07:30'', details = ''Worked stuck pipe''\<rparr>,
          \<lparr>time_date = [], details = ''Took a kick''\<rparr>,
          \<lparr>time_date = ''6 to 7'', details = ''Circulated hole clean''\<rparr>]
         = map (row_entry report_sheet 2) (narrative_rows report_sheet 2 start))"
proof -
  have c: "cell_at report_sheet 2 0 = CTimestamp ts_0600" "cell_at report_sheet 2 1 = CTimestamp ts_0730"
    "cell_at report_sheet 7 0 = COther ''6''" "cell_at report_sheet 7 1 = COther ''7''"
    by code_simp+
  have s: "strftime_date_hm ts_0600 @ '' to '' @ strftime_hm ts_0730 = ''2024-03-05 06:00 to 07:30''"
    by code_simp
  note t = time_text_format [OF report_sheet_data report_sheet_col]
  from t [of 2 ts_0600 ts_0730 CNaN CNaN] c s
  have "time_date (row_entry report_sheet 2 2) = ''2024-03-05 06:00 to 07:30''" by simp
  moreover from t [of 7 ts_0600 ts_0730 "COther ''6''" "COther ''7''"] c
  have "time_date (row_entry report_sheet 2 7) = ''6 to 7''" by simp
  moreover from t [of 2 ts_0600 ts_0730 CNaN CNaN]
  have "\<exists>start. [\<lparr>time_date = ''2024-03-05 06:00 to 07:30'', details = ''High torque observed''\<rparr>,
          \<lparr>time_date = '' to 07:30'', details = ''Worked stuck pipe''\<rparr>,
          \<lparr>time_date = [], details = ''Took a kick''\<rparr>,
          \<lparr>time_date = ''6 to 7'', details = ''Circulated hole clean''\<rparr>]
         = map (row_entry report_sheet 2) (narrative_rows report_sheet 2 start)"
    by blast
  ultimately show ?thesis by simp
qed



section \<open>Report identifier: the matcher and the pattern\<close>

lemma digit_not_space: "is_digit d \<Longrightarrow> \<not> is_space d"
  by (auto simp: is_digit_def is_space_def Let_def)

lemma hash_not_space: "\<not> is_space CHR ''#''"
  by code_simp

lemma hash_not_digit: "\<not> is_digit CHR ''#''"
  by code_simp

lemma lower_hash: "lower_char CHR ''#'' = CHR ''#''"
  by code_simp

lemma dropWhile_spaces:
  "\<forall>c\<in>set w. is_space c \<Longrightarrow> \<not> is_space x \<Longrightarrow> dropWhile is_space (w @ x # xs) = x # xs"
  by (induction w) simp_all

lemma skip_hash_split: "\<exists>h. (h = [] \<or> h = ''#'') \<and> s = h @ skip_hash s"
  by (cases s) (auto simp: skip_hash_def)

lemma match_digits_Some:
  "match_digits s = Some ds \<Longrightarrow>
     ds \<noteq> [] \<and> (\<forall>c\<in>set ds. is_digit c) \<and>
     (\<exists>post. s = ds @ post \<and> (post = [] \<or> \<not> is_digit (hd post)))"
proof -
  assume a: "match_digits s = Some ds"
  then have ds: "ds = takeWhile is_digit s" and ne: "ds \<noteq> []"
    by (auto simp: match_digits_def split: if_splits)
  have "s = ds @ dropWhile is_digit s" by (simp add: ds)
  moreover have "dropWhile is_digit s = [] \<or> \<not> is_digit (hd (dropWhile is_digit s))"
    using hd_dropWhile [of is_digit s] by blast
  moreover have "\<forall>c\<in>set ds. is_digit c"
    unfolding ds by (auto dest: set_takeWhileD)
  ultimately show ?thesis using ne by blast
qed

lemma match_digits_digit:
  "is_digit d \<Longrightarrow> match_digits (d # post) = Some (d # takeWhile is_digit post)"
  by (simp add: match_digits_def)

lemma spaces_split:
  "\<exists>w. (\<forall>c\<in>set w. is_space c) \<and> s = w @ dropWhile is_space s"
proof -
  have "s = takeWhile is_space s @ dropWhile is_space s" by simp
  moreover have "\<forall>c\<in>set (takeWhile is_space s). is_space c"
    by (auto dest: set_takeWhileD)
  ultimately show ?thesis by blast
qed

lemma match_here_Some:
  assumes "match_here s = Some ds"
  shows "\<exists>m post. s = m @ ds @ post \<and> is_marker m \<and> ds \<noteq> [] \<and> (\<forall>c\<in>set ds. is_digit c)
            \<and> (post = [] \<or> \<not> is_digit (hd post))"
proof (cases "str_lower (take 3 s) = ''ddr''")
  case True
  with assms have md: "match_digits (dropWhile is_space (skip_hash (dropWhile is_space (drop 3 s)))) = Some ds"
    by (simp add: match_here_def)
  obtain w1 where w1: "\<forall>c\<in>set w1. is_space c" "drop 3 s = w1 @ dropWhile is_space (drop 3 s)"
    using spaces_split by blast
  obtain h where h: "h = [] \<or> h = ''#''"
      "dropWhile is_space (drop 3 s) = h @ skip_hash (dropWhile is_space (drop 3 s))"
    using skip_hash_split by blast
  obtain w2 where w2: "\<forall>c\<in>set w2. is_space c"
      "skip_hash (dropWhile is_space (drop 3 s))
         = w2 @ dropWhile is_space (skip_hash (dropWhile is_space (drop 3 s)))"
    using spaces_split by blast
  from match_digits_Some [OF md] obtain post where
    post: "ds \<noteq> []" "\<forall>c\<in>set ds. is_digit c"
      "dropWhile is_space (skip_hash (dropWhile is_space (drop 3 s))) = ds @ post"
      "post = [] \<or> \<not> is_digit (hd post)"
    by blast
  have "s = take 3 s @ drop 3 s" by simp
  also have "drop 3 s = w1 @ h @ w2 @ ds @ post"
    using w1(2) h(2) w2(2) post(3) by metis
  finally have s: "s = (take 3 s @ w1 @ h @ w2) @ ds @ post" by simp
  have "is_marker (take 3 s @ w1 @ h @ w2)"
    unfolding is_marker_def using True w1(1) h(1) w2(1) by blast
  with s post show ?thesis by blast
next
  case False
  with assms have t: "take 1 s = ''#''" and md: "match_digits (dropWhile is_space (drop 1 s)) = Some ds"
    by (auto simp: match_here_def split: if_splits)
  obtain w where w: "\<forall>c\<in>set w. is_space c" "drop 1 s = w @ dropWhile is_space (drop 1 s)"
    using spaces_split by blast
  from match_digits_Some [OF md] obtain post where
    post: "ds \<noteq> []" "\<forall>c\<in>set ds. is_digit c"
      "dropWhile is_space (drop 1 s) = ds @ post"
      "post = [] \<or> \<not> is_digit (hd post)"
    by blast
  have "s = take 1 s @ drop 1 s" by simp
  also have "drop 1 s = w @ ds @ post" using w(2) post(3) by metis
  finally have s: "s = (''#'' @ w) @ ds @ post" using t by simp
  have "is_marker (''#'' @ w)"
    unfolding is_marker_def using w(1) by blast
  with s post show ?thesis by blast
qed

lemma match_here_marker:
  assumes "is_marker m" and "is_digit d"
  shows "match_here (m @ d # post) = Some (d # takeWhile is_digit post)"
proof -
  have nd: "\<not> is_space d" using assms(2) by (rule digit_not_space)
  have dh: "d \<noteq> CHR ''#''" using assms(2) hash_not_digit by auto
  from assms(1) consider
    (ddr) dd w1 h w2 where "m = dd @ w1 @ h @ w2" "str_lower dd = ''ddr''"
      "\<forall>c\<in>set w1. is_space c" "h = [] \<or> h = ''#''" "\<forall>c\<in>set w2. is_space c"
  | (hash) w where "m = ''#'' @ w" "\<forall>c\<in>set w. is_space c"
    unfolding is_marker_def by blast
  then show ?thesis
  proof cases
    case ddr
    from ddr(2) have len: "length dd = 3"
      by (metis length_map str_lower_def length_Cons list.size(3) numeral_3_eq_3)
    have t: "take 3 (m @ d # post) = dd" and dr: "drop 3 (m @ d # post) = w1 @ h @ w2 @ d # post"
      using len ddr(1) by simp_all
    have "dropWhile is_space (skip_hash (dropWhile is_space (w1 @ h @ w2 @ d # post))) = d # post"
    proof (cases "h = []")
      case True
      have "dropWhile is_space ((w1 @ w2) @ d # post) = d # post"
        using ddr(3,5) nd by (intro dropWhile_spaces) auto
      then show ?thesis using True dh nd by (simp add: skip_hash_def)
    next
      case False
      with ddr(4) have h: "h = ''#''" by simp
      have "dropWhile is_space (w1 @ CHR ''#'' # (w2 @ d # post)) = CHR ''#'' # (w2 @ d # post)"
        using ddr(3) hash_not_space by (intro dropWhile_spaces) auto
      moreover have "dropWhile is_space (w2 @ d # post) = d # post"
        using ddr(5) nd by (intro dropWhile_spaces) auto
      ultimately show ?thesis using h by (simp add: skip_hash_def)
    qed
    then show ?thesis
      using t dr ddr(2) assms(2) by (simp add: match_here_def match_digits_digit)
  next
    case hash
    have "dropWhile is_space (w @ d # post) = d # post"
      using hash(2) nd by (intro dropWhile_spaces) auto
    moreover have "str_lower (take 3 (m @ d # post)) \<noteq> ''ddr''"
      using hash(1) by (simp add: str_lower_def lower_hash)
    ultimately show ?thesis
      using hash(1) assms(2) by (simp add: match_here_def match_digits_digit)
  qed
qed

lemma match_here_Nil: "match_here [] = None"
  by code_simp

lemma re_search_None:
  "re_search s = None \<Longrightarrow> s = pre @ rest \<Longrightarrow> match_here rest = None"
proof (induction s arbitrary: pre)
  case Nil
  then show ?case by (simp add: match_here_Nil)
next
  case (Cons c cs)
  from Cons.prems(1) have here: "match_here (c # cs) = None" and later: "re_search cs = None"
    by (auto split: option.splits)
  show ?case
  proof (cases pre)
    case Nil
    with Cons.prems(2) here show ?thesis by simp
  next
    case (Cons p ps)
    with Cons.prems(2) have "cs = ps @ rest" by simp
    from Cons.IH [OF later this] show ?thesis .
  qed
qed

lemma re_search_Some:
  "re_search s = Some ds \<Longrightarrow>
     \<exists>pre rest. s = pre @ rest \<and> match_here rest = Some ds
        \<and> (\<forall>pre' rest'. s = pre' @ rest' \<and> match_here rest' \<noteq> None
               \<longrightarrow> length pre \<le> length pre')"
proof (induction s)
  case Nil
  then show ?case by (simp add: match_here_Nil)
next
  case (Cons c cs)
  show ?case
  proof (cases "match_here (c # cs)")
    case (Some g)
    with Cons.prems have "match_here (c # cs) = Some ds" by simp
    then have "c # cs = [] @ (c # cs) \<and> match_here (c # cs) = Some ds
        \<and> (\<forall>pre' rest'. c # cs = pre' @ rest' \<and> match_here rest' \<noteq> None
               \<longrightarrow> length ([]::string) \<le> length pre')"
      by simp
    then show ?thesis by blast
  next
    case None
    with Cons.prems have "re_search cs = Some ds" by simp
    from Cons.IH [OF this] obtain pre rest where
      pr: "cs = pre @ rest" "match_here rest = Some ds"
        "\<forall>pre' rest'. cs = pre' @ rest' \<and> match_here rest' \<noteq> None \<longrightarrow> length pre \<le> length pre'"
      by blast
    have "\<forall>pre' rest'. c # cs = pre' @ rest' \<and> match_here rest' \<noteq> None
               \<longrightarrow> length (c # pre) \<le> length pre'"
    proof (intro allI impI)
      fix pre' rest'
      assume a: "c # cs = pre' @ rest' \<and> match_here rest' \<noteq> None"
      show "length (c # pre) \<le> length pre'"
      proof (cases pre')
        case Nil
        with a None show ?thesis by simp
      next
        case (Cons p ps)
        with a have "cs = ps @ rest'" by simp
        with pr(3) a have "length pre \<le> length ps" by blast
        with Cons show ?thesis by simp
      qed
    qed
    moreover have "c # cs = (c # pre) @ rest" using pr(1) by simp
    ultimately show ?thesis using pr(2) by blast
  qed
qed

lemma re_search_follows:
  "number_follows_marker s \<Longrightarrow> re_search s \<noteq> None"
proof
  assume "number_follows_marker s" and n: "re_search s = None"
  then obtain pre m d post where
    s: "s = pre @ m @ d # post" and m: "is_marker m" "is_digit d"
    unfolding number_follows_marker_def by blast
  from re_search_None [OF n s] match_here_marker [OF m, of post] show False by simp
qed

lemma path_stem_ext:
  assumes "base \<noteq> []" and "ext \<noteq> []" and "CHR ''.'' \<notin> set ext"
  shows "path_stem (base @ ''.'' @ ext) = base"
proof -
  have tw: "takeWhile (\<lambda>c. c \<noteq> CHR ''.'') (rev ext @ CHR ''.'' # rev base) = rev ext"
    using assms(3) by (auto simp: takeWhile_append2 takeWhile_tail)
  have "rfind_dot (base @ ''.'' @ ext) = int (length base)"
    using tw by (simp add: rfind_dot_def)
  then show ?thesis using assms(1,2) by (simp add: path_stem_def)
qed

lemma ddr_marker: "is_marker ''DDR #''"
proof -
  have "''DDR #'' = ''DDR'' @ '' '' @ ''#'' @ []" by simp
  moreover have "str_lower ''DDR'' = ''ddr''" by code_simp
  moreover have "\<forall>c\<in>set '' ''. is_space c" by code_simp
  ultimately show ?thesis unfolding is_marker_def by (metis empty_iff list.set(1))
qed

section \<open>Report identifier: the claim\<close>

text \<open>
  C5: when a number follows a marker in the bare file name, \<open>extract_report_number\<close>
  returns the digits that follow the leftmost such marker, all of them; when none does,
  it returns the bare file name, which is the name without its extension. \<open>DDR #42.xlsx\<close>
  gives \<open>42\<close> and \<open>morning_log.xlsx\<close> gives \<open>morning_log\<close>.
\<close>

theorem extract_report_number_spec:
  "(number_follows_marker (path_stem name) \<longrightarrow>
      (\<exists>pre m post. path_stem name = pre @ m @ extract_report_number name @ post
          \<and> is_marker m \<and> extract_report_number name \<noteq> []
          \<and> (\<forall>c\<in>set (extract_report_number name). is_digit c)
          \<and> (post = [] \<or> \<not> is_digit (hd post))
          \<and> (\<forall>pre' m' d post'. path_stem name = pre' @ m' @ d # post' \<and> is_marker m' \<and> is_digit d
                 \<longrightarrow> length pre \<le> length pre')))
   \<and> (\<not> number_follows_marker (path_stem name) \<longrightarrow> extract_report_number name = path_stem name)
   \<and> (base \<noteq> [] \<and> ext \<noteq> [] \<and> CHR ''.'' \<notin> set ext \<longrightarrow> path_stem (base @ ''.'' @ ext) = base)
   \<and> extract_report_number ''DDR #42.xlsx'' = ''42''
   \<and> extract_report_number ''morning_log.xlsx'' = ''morning_log''"
proof (intro conjI impI)
  assume nf: "number_follows_marker (path_stem name)"
  then obtain ds where ds: "re_search (path_stem name) = Some ds"
    using re_search_follows by blast
  then have res: "extract_report_number name = ds"
    by (simp add: extract_report_number_def Let_def)
  from re_search_Some [OF ds] obtain pre rest where
    pr: "path_stem name = pre @ rest" "match_here rest = Some ds"
      "\<forall>pre' rest'. path_stem name = pre' @ rest' \<and> match_here rest' \<noteq> None
          \<longrightarrow> length pre \<le> length pre'"
    by blast
  from match_here_Some [OF pr(2)] obtain m post where
    mp: "rest = m @ ds @ post" "is_marker m" "ds \<noteq> []" "\<forall>c\<in>set ds. is_digit c"
      "post = [] \<or> \<not> is_digit (hd post)"
    by blast
  have left: "\<forall>pre' m' d post'. path_stem name = pre' @ m' @ d # post' \<and> is_marker m' \<and> is_digit d
                 \<longrightarrow> length pre \<le> length pre'"
  proof (intro allI impI)
    fix pre' m' d post'
    assume a: "path_stem name = pre' @ m' @ d # post' \<and> is_marker m' \<and> is_digit d"
    then have "match_here (m' @ d # post') \<noteq> None"
      using match_here_marker [of m' d post'] by simp
    with pr(3) a show "length pre \<le> length pre'" by blast
  qed
  have "path_stem name = pre @ m @ ds @ post" using pr(1) mp(1) by simp
  with mp left res
  show "\<exists>pre m post. path_stem name = pre @ m @ extract_report_number name @ post
          \<and> is_marker m \<and> extract_report_number name \<noteq> []
          \<and> (\<forall>c\<in>set (extract_report_number name). is_digit c)
          \<and> (post = [] \<or> \<not> is_digit (hd post))
          \<and> (\<forall>pre' m' d post'. path_stem name = pre' @ m' @ d # post' \<and> is_marker m' \<and> is_digit d
                 \<longrightarrow> length pre \<le> length pre')"
    by blast
next
  assume nf: "\<not> number_follows_marker (path_stem name)"
  have "re_search (path_stem name) = None"
  proof (rule ccontr)
    assume "re_search (path_stem name) \<noteq> None"
    then obtain ds where ds: "re_search (path_stem name) = Some ds" by blast
    from re_search_Some [OF ds] obtain pre rest where
      pr: "path_stem name = pre @ rest" "match_here rest = Some ds" by blast
    from match_here_Some [OF pr(2)] obtain m post where
      mp: "rest = m @ ds @ post" "is_marker m" "ds \<noteq> []" "\<forall>c\<in>set ds. is_digit c"
      by blast
    from mp(3) obtain d ds' where d: "ds = d # ds'" by (cases ds) auto
    with mp(4) have "is_digit d" by simp
    moreover have "path_stem name = pre @ m @ d # (ds' @ post)"
      using pr(1) mp(1) d by simp
    ultimately have "number_follows_marker (path_stem name)"
      unfolding number_follows_marker_def using mp(2) by blast
    with nf show False by simp
  qed
  then show "extract_report_number name = path_stem name"
    by (simp add: extract_report_number_def Let_def)
next
  assume "base \<noteq> [] \<and> ext \<noteq> [] \<and> CHR ''.'' \<notin> set ext"
  then show "path_stem (base @ ''.'' @ ext) = base"
    using path_stem_ext [of base ext] by blast
next
  show "extract_report_number ''DDR #42.xlsx'' = ''42''"
    by code_simp
  show "extract_report_number ''morning_log.xlsx'' = ''morning_log''"
    by code_simp
qed

theorem extract_report_number_spec_witness:
  "path_stem ''DDR #42.xlsx'' = ''DDR #42''
   \<and> number_follows_marker ''DDR #42''
   \<and> extract_report_number ''DDR #42.xlsx'' = ''42''
   \<and> (\<exists>pre m post. ''DDR #42'' = pre @ m @ ''42'' @ post \<and> is_marker m)"
proof -
  have stem: "path_stem ''DDR #42.xlsx'' = ''DDR #42''" by code_simp
  have dig: "is_digit CHR ''4''" by code_simp
  have "''DDR #42'' = [] @ ''DDR #'' @ CHR ''4'' # ''2''" by simp
  with ddr_marker dig have nf: "number_follows_marker ''DDR #42''"
    unfolding number_follows_marker_def by blast
  note t = extract_report_number_spec [of "''DDR #42.xlsx''" "''DDR #42''" "''xlsx''"]
  from t have res: "extract_report_number ''DDR #42.xlsx'' = ''42''" by blast
  from t nf stem res
  have "\<exists>pre m post. ''DDR #42'' = pre @ m @ ''42'' @ post \<and> is_marker m"
    by (metis (no_types, lifting))
  with stem nf res show ?thesis by blast
qed

section \<open>File and sheet driver: the claim\<close>

lemma process_files_eq:
  "process_files keywords fs all_results out
     = (all_results @ concat (map (ok_results keywords) fs),
        out @ concat (map (file_lines keywords) fs))"
  by (induction fs arbitrary: all_results out)
     (simp_all add: ok_results_def file_lines_def Let_def split: sum.splits)

text \<open>
  C9: \<open>process_all_files\<close> always returns. Its result is the concatenation, in the order
  of traversal, of the matches of the files whose processing succeeds; a file whose
  processing fails contributes nothing, gets its \<open>Error processing file\<close> line, and the
  files after it are processed all the same. A workbook that cannot be opened fails.
\<close>

theorem failed_files_skipped:
  "process_all_files input_folder keywords out
     = (concat (map (ok_results keywords) (excel_files input_folder)),
        out @ concat (map (file_lines keywords) (excel_files input_folder)))
   \<and> (file_book f = Inl e \<longrightarrow> process_ddr_file f keywords = Inl e \<and> ok_results keywords f = []
        \<and> file_lines keywords f
            = [''Processing: '' @ file_name f, ''  Error processing file: '' @ error_text e])
   \<and> (process_ddr_file f keywords = Inr results \<longrightarrow> ok_results keywords f = results)
   \<and> process_files keywords (before @ f # after) [] out
       = (concat (map (ok_results keywords) before) @ ok_results keywords f
            @ concat (map (ok_results keywords) after),
          out @ concat (map (file_lines keywords) before) @ file_lines keywords f
            @ concat (map (file_lines keywords) after))"
  by (simp add: process_all_files_def process_files_eq ok_results_def file_lines_def
        process_ddr_file_def Let_def)

theorem failed_files_skipped_witness:
  "process_all_files [narrow_file, good_file, notes_file, corrupt_file, later_file]
      [''Torque'', ''Kick''] []
   = ([\<lparr>Report_Number = ''42'', Time_Date = ''2024-03-05 06:00 to 07:30'', Risks = ''Torque''\<rparr>,
       \<lparr>Report_Number = ''42'', Time_Date = [], Risks = ''Kick''\<rparr>,
       \<lparr>Report_Number = ''morning_log'', Time_Date = [], Risks = ''Kick''\<rparr>],
      [''Processing: DDR #42.xlsx'', ''  Found 2 risk entries'',
       ''Processing: DDR 43.xlsx'', ''  Error processing file: File is not a zip file'',
       ''Processing: morning_log.xlsx'', ''  Found 1 risk entries'',
       ''Processing: DDR 44.xls'',
       ''  Error processing file: single positional indexer is out-of-bounds''])"
proof -
  have "(concat (map (ok_results [''Torque'', ''Kick''])
            (excel_files [narrow_file, good_file, notes_file, corrupt_file, later_file])),
         [] @ concat (map (file_lines [''Torque'', ''Kick''])
            (excel_files [narrow_file, good_file, notes_file, corrupt_file, later_file])))
   = ([\<lparr>Report_Number = ''42'', Time_Date = ''2024-03-05 06:00 to 07:30'', Risks = ''Torque''\<rparr>,
       \<lparr>Report_Number = ''42'', Time_Date = [], Risks = ''Kick''\<rparr>,
       \<lparr>Report_Number = ''morning_log'', Time_Date = [], Risks = ''Kick''\<rparr>],
      [''Processing: DDR #42.xlsx'', ''  Found 2 risk entries'',
       ''Processing: DDR 43.xlsx'', ''  Error processing file: File is not a zip file'',
       ''Processing: morning_log.xlsx'', ''  Found 1 risk entries'',
       ''Processing: DDR 44.xls'',
       ''  Error processing file: single positional indexer is out-of-bounds''])"
    by code_simp
  with failed_files_skipped
      [of "[narrow_file, good_file, notes_file, corrupt_file, later_file]"
          "[''Torque'', ''Kick'']" "[]" corrupt_file "ReadError []" "[]" "[]" "[]"]
  show ?thesis by (simp only:)
qed

section \<open>Result Writer: the claim\<close>

text \<open>
  C8: \<open>save_results\<close> on the empty table returns with the files as they were, and one
  more line printed: \<open>No results to save.\<close>
\<close>

theorem save_results_empty:
  "save_results [] output_path sheet_name w
     = Inr (w\<lparr>console := console w @ [''No results to save.'']\<rparr>)
   \<and> files (w\<lparr>console := console w @ [''No results to save.'']\<rparr>) = files w"
  by (simp add: save_results_def)

theorem save_results_empty_witness:
  "save_results [] ''output/risk_analysis.xlsx'' ''Risk Analysis''
      \<lparr>files = Map.empty(''output/risk_analysis.xlsx'' \<mapsto> Workbook [(''Risk Analysis'', [])]), console = []\<rparr>
   = Inr \<lparr>files = Map.empty(''output/risk_analysis.xlsx'' \<mapsto> Workbook [(''Risk Analysis'', [])]),
          console = [''No results to save.'']\<rparr>"
  using save_results_empty [of "''output/risk_analysis.xlsx''" "''Risk Analysis''"
      "\<lparr>files = Map.empty(''output/risk_analysis.xlsx'' \<mapsto> Workbook [(''Risk Analysis'', [])]), console = []\<rparr>"]
  by simp

end
